theory Spec2Isabelle
  imports Complex_Main "HOL-Library.Word"
begin

unbundle bit_operations_syntax

section \<open>Values, errors and effects\<close>

text \<open>
  The reader works on the bytes of one file. Python integers are unbounded and are
  modelled as \<open>int\<close>; a byte is an 8-bit word. Every exception that the code of
  \<^verbatim>\<open>tps.py\<close> (or a library call it makes) can raise is a constructor of \<open>error\<close>, and a
  call that may raise returns \<open>error + 'a\<close> with \<open>Inl\<close> for the exception.
  \<open>FieldError\<close>, \<open>ConstError\<close> and \<open>ArrayError\<close> are the exceptions of the
  \<^verbatim>\<open>construct\<close> parsing library (all of them subclasses of its \<open>ConstructError\<close>).
\<close>

type_synonym byte = "8 word"
type_synonym bytes = "byte list"

datatype error =
    FileNotFoundError
  | ValueError
  | TypeError
  | IndexError
  | AttributeError
  | FieldError
  | ConstError
  | ArrayError

definition is_ConstructError :: "error \<Rightarrow> bool" where
  "is_ConstructError e = (e = FieldError \<or> e = ConstError \<or> e = ArrayError)"

text \<open>What a call writes besides its result: a warning (\<^verbatim>\<open>warnings.warn\<close> with
  category \<open>RuntimeWarning\<close>) or a line on standard output (\<^verbatim>\<open>print\<close>).\<close>

datatype event = RuntimeWarning string | Print string

definition bind_err :: "error + 'a \<Rightarrow> ('a \<Rightarrow> error + 'b) \<Rightarrow> error + 'b" where
  "bind_err m f = (case m of Inl e \<Rightarrow> Inl e | Inr x \<Rightarrow> f x)"

text \<open>
  The expression \<^verbatim>\<open>(ctx['size'] - 0x20) / 2 / 4\<close> divides integers with \<^verbatim>\<open>/\<close>. The module
  is written for both interpreters (it imports \<^verbatim>\<open>six\<close>): Python 2 floors the quotient
  of two integers, Python 3 returns the exact quotient as a float. The operands here are
  below \<open>2 ^ 16\<close> in absolute value and the divisors are powers of two, so the float quotient
  is exact and is modelled as a rational number.
\<close>

datatype interpreter = Python2 | Python3

fun py_div :: "interpreter \<Rightarrow> rat \<Rightarrow> rat \<Rightarrow> rat" where
  "py_div Python2 a b = of_int \<lfloor>a / b\<rfloor>"
| "py_div Python3 a b = a / b"

section \<open>The constructs of the parsing library used by the reader\<close>

text \<open>
  A construct reads from a stream and returns the parsed value with the rest of the
  stream. A fixed-width field reads exactly its width and raises \<open>FieldError\<close> when the
  stream holds fewer bytes.
\<close>

type_synonym 'a parser = "bytes \<Rightarrow> error + ('a \<times> bytes)"

definition read_stream :: "nat \<Rightarrow> bytes parser" where
  "read_stream n s = (if length s < n then Inl FieldError else Inr (take n s, drop n s))"

fun le_int :: "bytes \<Rightarrow> int" where
  "le_int [] = 0"
| "le_int (b # bs) = uint b + 256 * le_int bs"

definition be_int :: "bytes \<Rightarrow> int" where
  "be_int bs = le_int (rev bs)"

definition Byte :: "int parser" where
  "Byte s = bind_err (read_stream 1 s) (\<lambda>(d, r). Inr (le_int d, r))"

definition ULInt16 :: "int parser" where
  "ULInt16 s = bind_err (read_stream 2 s) (\<lambda>(d, r). Inr (le_int d, r))"

definition ULInt32 :: "int parser" where
  "ULInt32 s = bind_err (read_stream 4 s) (\<lambda>(d, r). Inr (le_int d, r))"

definition UBInt32 :: "int parser" where
  "UBInt32 s = bind_err (read_stream 4 s) (\<lambda>(d, r). Inr (be_int d, r))"

definition Bytes :: "nat \<Rightarrow> bytes parser" where
  "Bytes n s = read_stream n s"

definition Const :: "bytes parser \<Rightarrow> bytes \<Rightarrow> bytes parser" where
  "Const subcon v s =
     bind_err (subcon s) (\<lambda>(obj, r). if obj \<noteq> v then Inl ConstError else Inr (obj, r))"

text \<open>
  \<^verbatim>\<open>Array(count, subcon)\<close> with a callable count evaluates the count once and runs
  \<^verbatim>\<open>while c < count: obj.append(subcon._parse(...)); c += 1\<close>; any \<open>ConstructError\<close>
  of the element parser is re-raised as \<open>ArrayError\<close>. The count is whatever number the
  callable returns: it is not checked to be an integer or to be non-negative.
\<close>

function Array_loop :: "rat \<Rightarrow> 'a parser \<Rightarrow> nat \<Rightarrow> 'a list \<Rightarrow> bytes \<Rightarrow> error + ('a list \<times> bytes)" where
  "Array_loop count subcon c obj s =
     (if rat_of_nat c < count then
        (case subcon s of
           Inl e \<Rightarrow> (if is_ConstructError e then Inl ArrayError else Inl e)
         | Inr (v, s') \<Rightarrow> Array_loop count subcon (Suc c) (obj @ [v]) s')
      else Inr (obj, s))"
  by pat_completeness auto
termination
proof (relation "measure (\<lambda>(count, subcon, c, obj, s). nat \<lceil>count\<rceil> - c)")
  show "wf (measure (\<lambda>(count :: rat, subcon :: 'a parser, c :: nat, obj :: 'a list, s :: bytes).
              nat \<lceil>count\<rceil> - c))"
    by simp
next
  fix count :: rat and subcon :: "'a parser" and c :: nat and obj :: "'a list"
    and s :: bytes and x2 :: "'a \<times> bytes" and x y
  assume lt: "rat_of_nat c < count"
  have "rat_of_nat c < of_int \<lceil>count\<rceil>"
    using lt le_of_int_ceiling [of count] by linarith
  then have "int c < \<lceil>count\<rceil>"
    by (metis of_int_less_iff of_int_of_nat_eq)
  then have "c < nat \<lceil>count\<rceil>"
    by linarith
  then show "((count, subcon, Suc c, obj @ [x], y), (count, subcon, c, obj, s))
      \<in> measure (\<lambda>(count, subcon, c, obj, s). nat \<lceil>count\<rceil> - c)"
    by simp
qed

definition Array :: "rat \<Rightarrow> 'a parser \<Rightarrow> 'a list parser" where
  "Array count subcon s = Array_loop count subcon 0 [] s"

section \<open>The file header\<close>

text \<open>The parsed header; \<open>size_field\<close> is the source's field \<^verbatim>\<open>size\<close>.\<close>

record FileHeader =
  offset :: int
  size_field :: int
  file_size :: int
  allocated_file_size :: int
  top_speed_mark :: bytes
  last_issued_row :: int
  change_count :: int
  page_root_ref :: int
  block_start_ref :: "int list"
  block_end_ref :: "int list"

text \<open>The marker \<^verbatim>\<open>b'tOpS\\x00\\x00'\<close>.\<close>

definition tops_mark :: bytes where
  "tops_mark = [0x74, 0x4F, 0x70, 0x53, 0x00, 0x00]"

definition block_count :: "interpreter \<Rightarrow> int \<Rightarrow> rat" where
  "block_count py sz = py_div py (py_div py (of_int (sz - 0x20)) 2) 4"

definition header_parse :: "interpreter \<Rightarrow> bytes \<Rightarrow> error + FileHeader" where
  "header_parse py s0 =
     bind_err (ULInt32 s0) (\<lambda>(v_offset, s1).
     bind_err (ULInt16 s1) (\<lambda>(v_size, s2).
     bind_err (ULInt32 s2) (\<lambda>(v_file_size, s3).
     bind_err (ULInt32 s3) (\<lambda>(v_allocated, s4).
     bind_err (Const (Bytes 6) tops_mark s4) (\<lambda>(v_mark, s5).
     bind_err (UBInt32 s5) (\<lambda>(v_last, s6).
     bind_err (ULInt32 s6) (\<lambda>(v_change, s7).
     bind_err (ULInt32 s7) (\<lambda>(v_root, s8).
     bind_err (Array (block_count py v_size) ULInt32 s8) (\<lambda>(v_start, s9).
     bind_err (Array (block_count py v_size) ULInt32 s9) (\<lambda>(v_end, s10).
       Inr \<lparr> offset = v_offset, size_field = v_size, file_size = v_file_size,
             allocated_file_size = v_allocated, top_speed_mark = v_mark,
             last_issued_row = v_last, change_count = v_change,
             page_root_ref = v_root, block_start_ref = v_start,
             block_end_ref = v_end \<rparr>))))))))))"

text \<open>The value of the \<^verbatim>\<open>size\<close> field in a raw header (bytes 4 and 5, little-endian) and
  the number of iterations that each of the two array loops makes for it.\<close>

definition raw_size :: "bytes \<Rightarrow> int" where
  "raw_size s = le_int (take 2 (drop 4 s))"

definition raw_blocks :: "interpreter \<Rightarrow> bytes \<Rightarrow> nat" where
  "raw_blocks py s = nat \<lceil>block_count py (raw_size s)\<rceil>"

section \<open>The memory-mapped file and the decryptor\<close>

text \<open>
  \<^verbatim>\<open>mmap.mmap(fileno, 0)\<close> maps the whole file and keeps a cursor. \<^verbatim>\<open>seek(pos)\<close> raises
  \<open>ValueError\<close> for a position outside \<open>0 .. len\<close>; \<^verbatim>\<open>read(n)\<close> returns at most
  \<open>n\<close> bytes from the cursor (all the remaining bytes when \<open>n\<close> is negative) and advances
  the cursor past them.
\<close>

record mmap =
  mdata :: bytes
  mpos :: nat

definition mmap_seek :: "mmap \<Rightarrow> int \<Rightarrow> error + mmap" where
  "mmap_seek m pos =
     (if pos < 0 \<or> int (length (mdata m)) < pos then Inl ValueError
      else Inr (m\<lparr>mpos := nat pos\<rparr>))"

definition mmap_tell :: "mmap \<Rightarrow> int" where
  "mmap_tell m = int (mpos m)"

definition mmap_read :: "mmap \<Rightarrow> int \<Rightarrow> bytes \<times> mmap" where
  "mmap_read m n =
     (let remaining = drop (mpos m) (mdata m);
          out = (if n < 0 then remaining else take (nat n) remaining)
      in (out, m\<lparr>mpos := mpos m + length out\<rparr>))"

text \<open>
  The decryptor class is an argument of the constructor (\<^verbatim>\<open>decryptor_class\<close>, by default
  \<^verbatim>\<open>tpscrypt.TpsDecryptor\<close>, whose module is not part of the sources at hand). The
  reader uses two methods of the object it builds from the mapped file and the password.
\<close>

record decryptor =
  is_encrypted :: bool
  decrypt :: "int \<Rightarrow> int \<Rightarrow> bytes"

section \<open>The table registry\<close>

text \<open>
  Modelled from the spec: the class \<^verbatim>\<open>TpsTablesList\<close> of \<^verbatim>\<open>tpstable.py\<close> is missing
  from the sources. The specification gives its contract: a table is identified by its
  number and accumulates an optional name and an optional definition; \<open>add\<close> is
  idempotent; \<open>set_name\<close> and \<open>add_definition\<close> upsert onto the table with the given
  number, creating it if necessary; \<open>get_numbers\<close> is the set of known numbers;
  \<open>get_number\<close> returns the number of the table registered under a name, or nothing;
  \<open>iscomplete\<close> holds iff every known table has both a non-empty name and non-empty
  definition bytes. The registry is kept as an association list in order of first
  sighting.
\<close>

record TpsTable =
  name :: "string option"
  definition_bytes :: "bytes option"

type_synonym TpsTablesList = "(int \<times> TpsTable) list"

definition get_numbers :: "TpsTablesList \<Rightarrow> int set" where
  "get_numbers ts = set (map fst ts)"

definition add :: "int \<Rightarrow> TpsTablesList \<Rightarrow> TpsTablesList" where
  "add n ts =
     (if n \<in> get_numbers ts then ts
      else ts @ [(n, \<lparr> name = None, definition_bytes = None \<rparr>)])"

definition set_name :: "int \<Rightarrow> string \<Rightarrow> TpsTablesList \<Rightarrow> TpsTablesList" where
  "set_name n nm ts =
     map (\<lambda>(k, t). if k = n then (k, t\<lparr>name := Some nm\<rparr>) else (k, t)) (add n ts)"

definition add_definition :: "int \<Rightarrow> bytes \<Rightarrow> TpsTablesList \<Rightarrow> TpsTablesList" where
  "add_definition n d ts =
     map (\<lambda>(k, t). if k = n then (k, t\<lparr>definition_bytes := Some d\<rparr>) else (k, t)) (add n ts)"

definition table_iscomplete :: "TpsTable \<Rightarrow> bool" where
  "table_iscomplete t =
     ((case name t of None \<Rightarrow> False | Some nm \<Rightarrow> nm \<noteq> []) \<and>
      (case definition_bytes t of None \<Rightarrow> False | Some d \<Rightarrow> d \<noteq> []))"

definition iscomplete :: "TpsTablesList \<Rightarrow> bool" where
  "iscomplete ts = list_all (\<lambda>(k, t). table_iscomplete t) ts"

fun get_number :: "TpsTablesList \<Rightarrow> string option \<Rightarrow> int option" where
  "get_number ts None = None"
| "get_number [] (Some nm) = None"
| "get_number ((k, t) # ts) (Some nm) =
     (if name t = Some nm then Some k else get_number ts (Some nm))"

section \<open>Pages and records\<close>

text \<open>
  The page directory (\<^verbatim>\<open>tpspage.TpsPagesList\<close>) and the record decoder
  (\<^verbatim>\<open>tpsrecord.TpsRecordsList\<close>) are not part of the sources at hand either; the reader
  only uses their interface, which is taken as a parameter: \<open>pages_list\<close> is the result
  of \<^verbatim>\<open>pages.list()\<close> (page references in discovery order), \<open>pages_getitem\<close> is
  \<^verbatim>\<open>pages[page_ref]\<close>, and a record carries the string \<^verbatim>\<open>record.type\<close> and the fields
  of \<^verbatim>\<open>record.data\<close> that the reader looks at.
\<close>

record TpsPage =
  hierarchy_level :: int
  payload :: bytes

record TpsPagesList =
  pages_list :: "int list"
  pages_getitem :: "int \<Rightarrow> TpsPage"

record RecordData =
  table_number :: int
  table_name :: string
  table_definition_bytes :: bytes

record TpsRecord =
  rec_type :: string
  data :: RecordData

section \<open>The TPS object\<close>

text \<open>
  The attributes of a \<^verbatim>\<open>TPS\<close> object. \<open>header\<close> and \<open>pages\<close> are set inside the
  constructor's \<^verbatim>\<open>try\<close> block and are absent (\<open>None\<close>) until then; reading an absent
  attribute raises \<open>AttributeError\<close>. \<open>self_file_size\<close> is the attribute
  \<^verbatim>\<open>self.file_size\<close>. The attribute \<^verbatim>\<open>name\<close> (the lower-cased base name of the file)
  is used by no method and is left out.
\<close>

record TPS =
  filename :: string
  encoding :: "string option"
  password :: "string option"
  check :: bool
  current_table_number :: "int option"
  date_fieldname :: "string option"
  time_fieldname :: "string option"
  tables :: TpsTablesList
  self_file_size :: int
  tps_file :: mmap
  decryptor :: decryptor
  header :: "FileHeader option"
  pages :: "TpsPagesList option"

text \<open>The environment of the constructor: the interpreter, the file system (the content
  of every regular file), and the two missing classes.\<close>

record env =
  py :: interpreter
  files :: "string \<Rightarrow> bytes option"
  new_TpsPagesList :: "TPS \<Rightarrow> int \<Rightarrow> bool \<Rightarrow> error + TpsPagesList"
  new_TpsRecordsList :: "TpsPage \<Rightarrow> bool \<Rightarrow> TpsRecord list"

subsection \<open>\<^verbatim>\<open>seek\<close> and \<^verbatim>\<open>read\<close>\<close>

definition TPS_seek :: "TPS \<Rightarrow> int \<Rightarrow> error + TPS" where
  "TPS_seek self pos =
     bind_err (mmap_seek (tps_file self) pos) (\<lambda>m. Inr (self\<lparr>tps_file := m\<rparr>))"

definition TPS_read :: "TPS \<Rightarrow> int \<Rightarrow> int option \<Rightarrow> error + (bytes \<times> TPS)" where
  "TPS_read self sz pos =
     bind_err
       (case pos of
          Some p \<Rightarrow> bind_err (TPS_seek self p) (\<lambda>self1. Inr (self1, p))
        | None \<Rightarrow> Inr (self, mmap_tell (tps_file self)))
       (\<lambda>(self1, p).
          if is_encrypted (decryptor self1) then Inr (decrypt (decryptor self1) sz p, self1)
          else (case mmap_read (tps_file self1) sz of
                  (out, m) \<Rightarrow> Inr (out, self1\<lparr>tps_file := m\<rparr>)))"

subsection \<open>\<^verbatim>\<open>block_contains\<close>\<close>

text \<open>The loop over \<^verbatim>\<open>range(len(block_start_ref))\<close>; \<^verbatim>\<open>block_end_ref[i]\<close> is evaluated
  only when the first comparison holds, and raises \<open>IndexError\<close> out of range.\<close>

fun block_contains_loop :: "nat list \<Rightarrow> FileHeader \<Rightarrow> int \<Rightarrow> int \<Rightarrow> error + bool" where
  "block_contains_loop [] h start_ref end_ref = Inr False"
| "block_contains_loop (i # is) h start_ref end_ref =
     (if block_start_ref h ! i \<le> start_ref then
        (if i < length (block_end_ref h) then
           (if end_ref \<le> block_end_ref h ! i then Inr True
            else block_contains_loop is h start_ref end_ref)
         else Inl IndexError)
      else block_contains_loop is h start_ref end_ref)"

definition block_contains :: "TPS \<Rightarrow> int \<Rightarrow> int \<Rightarrow> error + bool" where
  "block_contains self start_ref end_ref =
     (case header self of
        None \<Rightarrow> Inl AttributeError
      | Some h \<Rightarrow>
          block_contains_loop [0 ..< length (block_start_ref h)] h start_ref end_ref)"

subsection \<open>\<^verbatim>\<open>set_current_table\<close>\<close>

definition set_current_table :: "TPS \<Rightarrow> string option \<Rightarrow> TPS" where
  "set_current_table self tablename =
     self\<lparr>current_table_number := get_number (tables self) tablename\<rparr>"

subsection \<open>The schema scan \<^verbatim>\<open>__getdefinition\<close>\<close>

text \<open>The body of the inner loop up to the completeness test: the three \<^verbatim>\<open>if\<close>
  statements, in the order of the source.\<close>

definition process_record :: "TpsRecord \<Rightarrow> TpsTablesList \<Rightarrow> TpsTablesList" where
  "process_record r ts =
     (let ts1 = (if rec_type r \<noteq> ''NULL'' \<and> table_number (data r) \<notin> get_numbers ts
                 then add (table_number (data r)) ts else ts);
          ts2 = (if rec_type r = ''TABLE_NAME''
                 then set_name (table_number (data r)) (table_name (data r)) ts1 else ts1);
          ts3 = (if rec_type r = ''TABLE_DEFINITION''
                 then add_definition (table_number (data r)) (table_definition_bytes (data r)) ts2
                 else ts2)
      in ts3)"

text \<open>
  The two loops thread the registry together with a log of the records whose loop body
  has run, each with the reference of its page, in order. The log is not an attribute of
  the object: it records what the scan did. The inner loop leaves with \<^verbatim>\<open>break\<close> when
  \<open>iscomplete\<close> holds after a record; the outer loop tests \<open>iscomplete\<close> after every
  page, leaf or not.
\<close>

type_synonym scan_state = "TpsTablesList \<times> (int \<times> TpsRecord) list"

fun records_loop :: "int \<Rightarrow> TpsRecord list \<Rightarrow> scan_state \<Rightarrow> scan_state" where
  "records_loop page_ref [] st = st"
| "records_loop page_ref (r # rs) st =
     (let ts' = process_record r (fst st); st' = (ts', snd st @ [(page_ref, r)])
      in if iscomplete ts' then st' else records_loop page_ref rs st')"

fun pages_loop :: "(int \<Rightarrow> TpsRecord list option) \<Rightarrow> int list \<Rightarrow> scan_state \<Rightarrow> scan_state" where
  "pages_loop leaf_records [] st = st"
| "pages_loop leaf_records (page_ref # rest) st =
     (let st' = (case leaf_records page_ref of
                   Some rs \<Rightarrow> records_loop page_ref rs st
                 | None \<Rightarrow> st)
      in if iscomplete (fst st') then st' else pages_loop leaf_records rest st')"

text \<open>\<open>leaf_records env pg chk page_ref\<close> is the record stream that the scan iterates for
  a page: the records of \<^verbatim>\<open>TpsRecordsList(self, self.pages[page_ref], check)\<close> when the
  hierarchy level of the page is 0, and nothing for any other page.\<close>

definition leaf_records :: "env \<Rightarrow> TpsPagesList \<Rightarrow> bool \<Rightarrow> int \<Rightarrow> TpsRecord list option" where
  "leaf_records env pg chk page_ref =
     (if hierarchy_level (pages_getitem pg page_ref) = 0
      then Some (new_TpsRecordsList env (pages_getitem pg page_ref) chk)
      else None)"

definition getdefinition_scan :: "env \<Rightarrow> TPS \<Rightarrow> error + scan_state" where
  "getdefinition_scan env self =
     (case pages self of
        None \<Rightarrow> Inl AttributeError
      | Some pg \<Rightarrow>
          Inr (pages_loop (leaf_records env pg (check self)) (rev (pages_list pg))
                 (tables self, [])))"

definition getdefinition :: "env \<Rightarrow> TPS \<Rightarrow> error + TPS" where
  "getdefinition env self =
     bind_err (getdefinition_scan env self) (\<lambda>st. Inr (self\<lparr>tables := fst st\<rparr>))"

subsection \<open>\<^verbatim>\<open>to_date\<close> and \<^verbatim>\<open>to_time\<close>\<close>

record date_struct =
  day :: int
  month :: int
  year :: int

definition DATE_STRUCT_parse :: "bytes \<Rightarrow> error + date_struct" where
  "DATE_STRUCT_parse s0 =
     bind_err (Byte s0) (\<lambda>(v_day, s1).
     bind_err (Byte s1) (\<lambda>(v_month, s2).
     bind_err (ULInt16 s2) (\<lambda>(v_year, s3).
       Inr \<lparr> day = v_day, month = v_month, year = v_year \<rparr>)))"

record time_struct =
  centisecond :: int
  second :: int
  minute :: int
  hour :: int

definition TIME_STRUCT_parse :: "bytes \<Rightarrow> error + time_struct" where
  "TIME_STRUCT_parse s0 =
     bind_err (Byte s0) (\<lambda>(v_centisecond, s1).
     bind_err (Byte s1) (\<lambda>(v_second, s2).
     bind_err (Byte s2) (\<lambda>(v_minute, s3).
     bind_err (Byte s3) (\<lambda>(v_hour, s4).
       Inr \<lparr> centisecond = v_centisecond, second = v_second, minute = v_minute,
             hour = v_hour \<rparr>))))"

text \<open>
  \<^verbatim>\<open>datetime.date(year, month, day)\<close> builds a date of the proleptic Gregorian calendar
  and raises \<open>ValueError\<close> unless \<open>1 \<le> year \<le> 9999\<close>, \<open>1 \<le> month \<le> 12\<close> and
  the day exists in that month.
\<close>

datatype date = Date int int int

definition is_leap :: "int \<Rightarrow> bool" where
  "is_leap y = (y mod 4 = 0 \<and> (y mod 100 \<noteq> 0 \<or> y mod 400 = 0))"

definition days_in_month :: "int \<Rightarrow> int \<Rightarrow> int" where
  "days_in_month y m =
     (if m = 2 then (if is_leap y then 29 else 28)
      else if m = 4 \<or> m = 6 \<or> m = 9 \<or> m = 11 then 30
      else 31)"

definition valid_date :: "int \<Rightarrow> int \<Rightarrow> int \<Rightarrow> bool" where
  "valid_date y m d =
     (1 \<le> y \<and> y \<le> 9999 \<and> 1 \<le> m \<and> m \<le> 12 \<and> 1 \<le> d \<and> d \<le> days_in_month y m)"

definition new_date :: "int \<Rightarrow> int \<Rightarrow> int \<Rightarrow> error + date" where
  "new_date y m d = (if valid_date y m d then Inr (Date y m d) else Inl ValueError)"

definition to_date :: "bytes \<Rightarrow> error + date option" where
  "to_date v =
     bind_err (DATE_STRUCT_parse v) (\<lambda>value_date.
       if year value_date = 0 then Inr None
       else bind_err (new_date (year value_date) (month value_date) (day value_date))
              (\<lambda>d. Inr (Some d)))"

text \<open>
  In \<^verbatim>\<open>to_time\<close> the name \<^verbatim>\<open>time\<close> is the one bound at the top of the module by
  \<^verbatim>\<open>import time\<close>: the module \<^verbatim>\<open>time\<close> of the standard library, not the class
  \<^verbatim>\<open>datetime.time\<close> (only \<^verbatim>\<open>date\<close> is imported from \<^verbatim>\<open>datetime\<close>). A module object is
  not callable: once the arguments are evaluated, the call raises \<open>TypeError\<close>.
  \<open>Time h m s us\<close> stands for the value \<^verbatim>\<open>datetime.time(h, m, s, us)\<close> that the call
  would have to return.
\<close>

datatype time_of_day = Time int int int int

definition time_module_call :: "int \<Rightarrow> int \<Rightarrow> int \<Rightarrow> int \<Rightarrow> error + time_of_day" where
  "time_module_call h m s us = Inl TypeError"

definition to_time :: "bytes \<Rightarrow> error + time_of_day" where
  "to_time v =
     bind_err (TIME_STRUCT_parse v) (\<lambda>value_time.
       time_module_call (hour value_time) (minute value_time) (second value_time)
         (centisecond value_time * 10000))"

subsection \<open>The constructor\<close>

text \<open>
  The statements of the \<^verbatim>\<open>try\<close> block. An exception leaves the object as it is at that
  moment, so a failure is returned together with the object: the handler of
  \<open>ConstError\<close> goes on with it.
\<close>

definition init_try :: "env \<Rightarrow> TPS \<Rightarrow> string option \<Rightarrow> (error \<times> TPS) + TPS" where
  "init_try env self current_tablename =
     (case TPS_read self 0x200 None of
        Inl e \<Rightarrow> Inl (e, self)
      | Inr (raw, self1) \<Rightarrow>
          (case header_parse (py env) raw of
             Inl e \<Rightarrow> Inl (e, self1)
           | Inr h \<Rightarrow>
               (let self2 = self1\<lparr>header := Some h\<rparr> in
                case new_TpsPagesList env self2 (page_root_ref h) (check self2) of
                  Inl e \<Rightarrow> Inl (e, self2)
                | Inr pg \<Rightarrow>
                    (let self3 = self2\<lparr>pages := Some pg\<rparr> in
                     case getdefinition env self3 of
                       Inl e \<Rightarrow> Inl (e, self3)
                     | Inr self4 \<Rightarrow> Inr (set_current_table self4 current_tablename)))))"

text \<open>
  \<^verbatim>\<open>TPS.__init__\<close>. The result is what was written (warnings, printed lines) and either
  the exception that leaves the constructor or the object. A missing file raises
  \<open>FileNotFoundError\<close>; \<^verbatim>\<open>mmap.mmap\<close> raises \<open>ValueError\<close> for an empty file; a
  \<open>ConstError\<close> raised inside the \<^verbatim>\<open>try\<close> block is caught, a line is printed and
  the constructor returns normally; every other exception propagates. File permissions
  are not modelled (every regular file can be opened for update), and a warning is an
  event, as under the default warning filter.
\<close>

definition TPS_init ::
  "env \<Rightarrow> string \<Rightarrow> string option \<Rightarrow> string option \<Rightarrow> bool \<Rightarrow> string option \<Rightarrow>
   string option \<Rightarrow> string option \<Rightarrow> (mmap \<Rightarrow> string option \<Rightarrow> decryptor) \<Rightarrow>
   event list \<times> (error + TPS)" where
  "TPS_init env v_filename v_encoding v_password v_check current_tablename
       v_date_fieldname v_time_fieldname decryptor_class =
     (case files env v_filename of
        None \<Rightarrow> ([], Inl FileNotFoundError)
      | Some content \<Rightarrow>
          (let fsize = int (length content);
               evs = (if v_check \<and> fsize AND 0x3F \<noteq> 0
                      then [RuntimeWarning ''File size is not a multiple of 64 bytes.'']
                      else [])
           in if content = [] then (evs, Inl ValueError)
              else
                (let m = \<lparr> mdata = content, mpos = 0 \<rparr>;
                     self = \<lparr> filename = v_filename, encoding = v_encoding,
                              password = v_password, check = v_check,
                              current_table_number = None,
                              date_fieldname = v_date_fieldname,
                              time_fieldname = v_time_fieldname,
                              tables = [], self_file_size = fsize, tps_file = m,
                              decryptor = decryptor_class m v_password,
                              header = None, pages = None \<rparr>
                 in case init_try env self current_tablename of
                      Inr self' \<Rightarrow> (evs, Inr self')
                    | Inl (e, self') \<Rightarrow>
                        (if e = ConstError
                         then (evs @ [Print ''Bad cryptographic keys.''], Inr self')
                         else (evs, Inl e)))))"

section \<open>Notions and sample inputs used in the statements\<close>

text \<open>The header bytes handed to the parser by the constructor: the result of
  \<^verbatim>\<open>self.read(0x200)\<close> on the freshly mapped file.\<close>

definition decrypted_header :: "decryptor \<Rightarrow> bytes \<Rightarrow> bytes" where
  "decrypted_header d content =
     (if is_encrypted d then decrypt d 0x200 0 else take 0x200 content)"

definition size_warning :: event where
  "size_warning = RuntimeWarning ''File size is not a multiple of 64 bytes.''"

text \<open>The fixed 32 bytes of a header with the right marker, all other fields zero except
  the two bytes of the \<^verbatim>\<open>size\<close> field.\<close>

definition fixed_header :: "byte \<Rightarrow> byte \<Rightarrow> bytes" where
  "fixed_header lo hi =
     [0, 0, 0, 0, lo, hi, 0, 0, 0, 0, 0, 0, 0, 0,
      0x74, 0x4F, 0x70, 0x53, 0x00, 0x00,
      0, 0, 0, 0, 0, 0, 0, 0, 0, 0, 0, 0]"

text \<open>A header of size \<open>0x28\<close> with one block, from \<open>0x200\<close> to \<open>0x300\<close>.\<close>

definition one_block_header :: bytes where
  "one_block_header = fixed_header 0x28 0 @ [0, 2, 0, 0, 0, 3, 0, 0]"

definition one_block_parsed :: FileHeader where
  "one_block_parsed =
     \<lparr> offset = 0, size_field = 0x28, file_size = 0, allocated_file_size = 0,
       top_speed_mark = tops_mark, last_issued_row = 0, change_count = 0,
       page_root_ref = 0, block_start_ref = [0x200], block_end_ref = [0x300] \<rparr>"

text \<open>A file of \<open>0x41\<close> bytes that starts with this header, a file of twenty zero bytes
  (no marker) and a file of one byte.\<close>

definition sample_file :: bytes where
  "sample_file = one_block_header @ replicate 25 0"

definition no_marker_file :: bytes where
  "no_marker_file = replicate 20 0"

definition plain_decryptor :: "mmap \<Rightarrow> string option \<Rightarrow> decryptor" where
  "plain_decryptor m pw = \<lparr> is_encrypted = False, decrypt = (\<lambda>sz pos. []) \<rparr>"

text \<open>Four pages: page 0 is an internal page, pages 1 to 3 are leaves. The payload of a
  page is its number; the records of the leaves are those of a file with two tables.\<close>

definition mk_record :: "string \<Rightarrow> int \<Rightarrow> string \<Rightarrow> bytes \<Rightarrow> TpsRecord" where
  "mk_record ty n nm d =
     \<lparr> rec_type = ty,
       data = \<lparr> table_number = n, table_name = nm, table_definition_bytes = d \<rparr> \<rparr>"

definition sample_pages :: TpsPagesList where
  "sample_pages =
     \<lparr> pages_list = [0, 1, 2, 3],
       pages_getitem = (\<lambda>ref. \<lparr> hierarchy_level = (if ref = 0 then 1 else 0),
                                payload = [word_of_int ref] \<rparr>) \<rparr>"

definition sample_records :: "TpsPage \<Rightarrow> bool \<Rightarrow> TpsRecord list" where
  "sample_records page chk =
     (if payload page = [3] then [mk_record ''TABLE_NAME'' 2 ''orders'' []]
      else if payload page = [2] then
        [mk_record ''TABLE_NAME'' 1 ''items'' [], mk_record ''TABLE_DEFINITION'' 2 [] [1, 2]]
      else if payload page = [1] then
        [mk_record ''TABLE_DEFINITION'' 1 [] [3], mk_record ''DATA'' 1 [] []]
      else if payload page = [0] then [mk_record ''DATA'' 7 [] []]
      else [])"

definition sample_env :: env where
  "sample_env =
     \<lparr> py = Python3,
       files = (\<lambda>f. if f = ''sample.tps'' then Some sample_file
                     else if f = ''nomarker.tps'' then Some no_marker_file
                     else if f = ''short.tps'' then Some [0]
                     else None),
       new_TpsPagesList = (\<lambda>self root chk. Inr sample_pages),
       new_TpsRecordsList = sample_records \<rparr>"

definition sample_tps :: TPS where
  "sample_tps =
     \<lparr> filename = ''sample.tps'', encoding = None, password = None, check = False,
       current_table_number = None, date_fieldname = None, time_fieldname = None,
       tables = [], self_file_size = 0x41,
       tps_file = \<lparr> mdata = sample_file, mpos = 0x41 \<rparr>,
       decryptor = plain_decryptor \<lparr> mdata = sample_file, mpos = 0 \<rparr> None,
       header = Some one_block_parsed, pages = Some sample_pages \<rparr>"

text \<open>The records that the scan has to look at, in its order: those of the leaf pages,
  last discovered page first, each with the reference of its page; and the registry after
  the loop body has run on a list of them.\<close>

definition leaf_stream :: "env \<Rightarrow> TpsPagesList \<Rightarrow> bool \<Rightarrow> (int \<times> TpsRecord) list" where
  "leaf_stream env pg chk =
     concat (map (\<lambda>page_ref.
                    if hierarchy_level (pages_getitem pg page_ref) = 0
                    then map (Pair page_ref) (new_TpsRecordsList env (pages_getitem pg page_ref) chk)
                    else [])
               (rev (pages_list pg)))"

definition registry_after :: "TpsTablesList \<Rightarrow> (int \<times> TpsRecord) list \<Rightarrow> TpsTablesList" where
  "registry_after ts seen = foldl (\<lambda>ts x. process_record (snd x) ts) ts seen"

text \<open>The header that the parser returns for \<open>fixed_header lo hi\<close> when both arrays
  come out empty, and the sample object after the scan of the sample pages.\<close>

definition empty_blocks_parsed :: "int \<Rightarrow> FileHeader" where
  "empty_blocks_parsed sz =
     \<lparr> offset = 0, size_field = sz, file_size = 0, allocated_file_size = 0,
       top_speed_mark = tops_mark, last_issued_row = 0, change_count = 0,
       page_root_ref = 0, block_start_ref = [], block_end_ref = [] \<rparr>"

definition scanned_tps :: TPS where
  "scanned_tps =
     sample_tps\<lparr> tables :=
       [(2, \<lparr> name = Some ''orders'', definition_bytes = Some [1, 2] \<rparr>),
        (1, \<lparr> name = Some ''items'', definition_bytes = Some [3] \<rparr>)] \<rparr>"

text \<open>
  A run of the scan over a stream of records, from the registry \<open>ts\<close>: \<open>seen\<close> are
  the records whose loop body has run and \<open>ts'\<close> is the registry at the end. The run
  stops at the first record after which the registry is complete: \<open>seen\<close> is a prefix of
  the stream, the registry is complete after none of its proper non-empty prefixes, and
  it is complete at the end unless the whole stream was consumed.
\<close>

definition stops_at_first_complete ::
  "TpsTablesList \<Rightarrow> (int \<times> TpsRecord) list \<Rightarrow> (int \<times> TpsRecord) list \<Rightarrow>
   TpsTablesList \<Rightarrow> bool" where
  "stops_at_first_complete ts stream seen ts' =
     (seen = take (length seen) stream \<and> ts' = registry_after ts seen
      \<and> (\<forall>k. 0 < k \<and> k < length seen \<longrightarrow> \<not> iscomplete (registry_after ts (take k seen)))
      \<and> (seen \<noteq> stream \<longrightarrow> iscomplete ts'))"

definition stream_of ::
  "(int \<Rightarrow> TpsRecord list option) \<Rightarrow> int list \<Rightarrow> (int \<times> TpsRecord) list" where
  "stream_of lr ps =
     concat (map (\<lambda>p. case lr p of Some rs \<Rightarrow> map (Pair p) rs | None \<Rightarrow> []) ps)"

section \<open>The header parser\<close>

lemma read_stream_ok: "n \<le> length s \<Longrightarrow> read_stream n s = Inr (take n s, drop n s)"
  by (simp add: read_stream_def)

lemma read_stream_short: "length s < n \<Longrightarrow> read_stream n s = Inl FieldError"
  by (simp add: read_stream_def)

lemma ULInt32_ok: "4 \<le> length s \<Longrightarrow> ULInt32 s = Inr (le_int (take 4 s), drop 4 s)"
  by (simp add: ULInt32_def read_stream_def bind_err_def)

lemma ULInt32_short: "length s < 4 \<Longrightarrow> ULInt32 s = Inl FieldError"
  by (simp add: ULInt32_def read_stream_def bind_err_def)

lemma UBInt32_ok: "4 \<le> length s \<Longrightarrow> UBInt32 s = Inr (be_int (take 4 s), drop 4 s)"
  by (simp add: UBInt32_def read_stream_def bind_err_def)

lemma UBInt32_short: "length s < 4 \<Longrightarrow> UBInt32 s = Inl FieldError"
  by (simp add: UBInt32_def read_stream_def bind_err_def)

lemma ULInt16_ok: "2 \<le> length s \<Longrightarrow> ULInt16 s = Inr (le_int (take 2 s), drop 2 s)"
  by (simp add: ULInt16_def read_stream_def bind_err_def)

lemma ULInt16_short: "length s < 2 \<Longrightarrow> ULInt16 s = Inl FieldError"
  by (simp add: ULInt16_def read_stream_def bind_err_def)

lemma Const_Bytes_ok:
  "n \<le> length s \<Longrightarrow> take n s = v \<Longrightarrow> Const (Bytes n) v s = Inr (v, drop n s)"
  by (simp add: Const_def Bytes_def read_stream_def bind_err_def)

lemma Const_Bytes_mismatch:
  "n \<le> length s \<Longrightarrow> take n s \<noteq> v \<Longrightarrow> Const (Bytes n) v s = Inl ConstError"
  by (simp add: Const_def Bytes_def read_stream_def bind_err_def)

lemma Const_Bytes_short:
  "length s < n \<Longrightarrow> Const (Bytes n) v s = Inl FieldError"
  by (simp add: Const_def Bytes_def read_stream_def bind_err_def)

lemma nat_ceiling_gt: "rat_of_nat c < count \<longleftrightarrow> c < nat \<lceil>count\<rceil>"
proof -
  have "c < nat \<lceil>count\<rceil> \<longleftrightarrow> int c < \<lceil>count\<rceil>" by linarith
  also have "\<dots> \<longleftrightarrow> rat_of_int (int c) < count" by (rule less_ceiling_iff)
  finally show ?thesis by simp
qed

lemma Array_loop_ULInt32_ok:
  "4 * (nat \<lceil>count\<rceil> - c) \<le> length s \<Longrightarrow>
   \<exists>vs. Array_loop count ULInt32 c obj s = Inr (obj @ vs, drop (4 * (nat \<lceil>count\<rceil> - c)) s)
        \<and> length vs = nat \<lceil>count\<rceil> - c"
proof (induction count "ULInt32" c obj s rule: Array_loop.induct)
  case (1 count c obj s)
  show ?case
  proof (cases "c < nat \<lceil>count\<rceil>")
    case False
    then have "\<not> rat_of_nat c < count" by (simp add: nat_ceiling_gt)
    then show ?thesis using False by simp
  next
    case True
    then have lt: "rat_of_nat c < count" by (simp add: nat_ceiling_gt)
    have eq: "nat \<lceil>count\<rceil> - c = Suc (nat \<lceil>count\<rceil> - Suc c)" using True by simp
    have len: "4 \<le> length s" using "1.prems" eq by simp
    have p: "ULInt32 s = Inr (le_int (take 4 s), drop 4 s)" using len by (rule ULInt32_ok)
    have "4 * (nat \<lceil>count\<rceil> - Suc c) \<le> length (drop 4 s)"
      using "1.prems" eq by simp
    from "1.hyps" [OF lt p refl this]
    obtain vs where vs: "Array_loop count ULInt32 (Suc c) (obj @ [le_int (take 4 s)]) (drop 4 s)
        = Inr ((obj @ [le_int (take 4 s)]) @ vs, drop (4 * (nat \<lceil>count\<rceil> - Suc c)) (drop 4 s))"
      and lvs: "length vs = nat \<lceil>count\<rceil> - Suc c"
      by blast
    have d: "drop (4 * (nat \<lceil>count\<rceil> - Suc c)) (drop 4 s) = drop (4 * (nat \<lceil>count\<rceil> - c)) s"
      using eq by (simp add: add.commute)
    have "Array_loop count ULInt32 c obj s
        = Inr (obj @ (le_int (take 4 s) # vs), drop (4 * (nat \<lceil>count\<rceil> - c)) s)"
      using lt p vs d by simp
    moreover have "length (le_int (take 4 s) # vs) = nat \<lceil>count\<rceil> - c"
      using lvs eq by simp
    ultimately show ?thesis by blast
  qed
qed

lemma Array_loop_ULInt32_short:
  "length s < 4 * (nat \<lceil>count\<rceil> - c) \<Longrightarrow> Array_loop count ULInt32 c obj s = Inl ArrayError"
proof (induction count "ULInt32" c obj s rule: Array_loop.induct)
  case (1 count c obj s)
  have below: "c < nat \<lceil>count\<rceil>"
    using "1.prems" by (cases "c < nat \<lceil>count\<rceil>") auto
  then have lt: "rat_of_nat c < count" by (simp add: nat_ceiling_gt)
  have eq: "nat \<lceil>count\<rceil> - c = Suc (nat \<lceil>count\<rceil> - Suc c)" using below by simp
  show ?case
  proof (cases "4 \<le> length s")
    case False
    then have "ULInt32 s = Inl FieldError" by (simp add: ULInt32_short)
    then show ?thesis using lt by (simp add: is_ConstructError_def)
  next
    case len: True
    have p: "ULInt32 s = Inr (le_int (take 4 s), drop 4 s)" using len by (rule ULInt32_ok)
    have "length (drop 4 s) < 4 * (nat \<lceil>count\<rceil> - Suc c)"
      using "1.prems" eq len by simp
    from "1.hyps" [OF lt p refl this] show ?thesis using lt p by simp
  qed
qed


lemmas field_ok = ULInt32_ok UBInt32_ok ULInt16_ok Const_Bytes_ok
lemmas field_short = ULInt32_short UBInt32_short ULInt16_short Const_Bytes_short

lemma header_parse_short20:
  assumes "length s < 20"
  shows "header_parse ip s = Inl FieldError"
proof -
  consider "length s < 4" | "4 \<le> length s" "length s < 6" | "6 \<le> length s" "length s < 10"
    | "10 \<le> length s" "length s < 14" | "14 \<le> length s" "length s < 20"
    using assms by linarith
  then show ?thesis
  proof cases
    case 1 then show ?thesis by (simp add: header_parse_def bind_err_def field_short)
  next
    case 2 then show ?thesis by (simp add: header_parse_def bind_err_def field_short field_ok)
  next
    case 3 then show ?thesis by (simp add: header_parse_def bind_err_def field_short field_ok)
  next
    case 4 then show ?thesis by (simp add: header_parse_def bind_err_def field_short field_ok)
  next
    case 5 then show ?thesis by (simp add: header_parse_def bind_err_def field_short field_ok)
  qed
qed

lemma header_parse_mismatch:
  assumes "20 \<le> length s" "take 6 (drop 14 s) \<noteq> tops_mark"
  shows "header_parse ip s = Inl ConstError"
  using assms by (simp add: header_parse_def bind_err_def field_ok Const_Bytes_mismatch)

lemma header_parse_short32:
  assumes "20 \<le> length s" "take 6 (drop 14 s) = tops_mark" "length s < 32"
  shows "header_parse ip s = Inl FieldError"
proof -
  consider "length s < 24" | "24 \<le> length s" "length s < 28" | "28 \<le> length s"
    by linarith
  then show ?thesis
  proof cases
    case 1 then show ?thesis using assms
      by (simp add: header_parse_def bind_err_def field_short field_ok)
  next
    case 2 then show ?thesis using assms
      by (simp add: header_parse_def bind_err_def field_short field_ok)
  next
    case 3 then show ?thesis using assms
      by (simp add: header_parse_def bind_err_def field_short field_ok)
  qed
qed

lemma header_parse_short_arrays:
  assumes "32 \<le> length s" "take 6 (drop 14 s) = tops_mark"
    "length s < 32 + 8 * raw_blocks ip s"
  shows "header_parse ip s = Inl ArrayError"
proof -
  let ?n = "raw_blocks ip s"
  let ?count = "block_count ip (le_int (take 2 (drop 4 s)))"
  have n: "nat \<lceil>?count\<rceil> = ?n" by (simp add: raw_blocks_def raw_size_def)
  show ?thesis
  proof (cases "4 * ?n \<le> length (drop 32 s)")
    case False
    then have "Array_loop ?count ULInt32 0 [] (drop 32 s) = Inl ArrayError"
      using Array_loop_ULInt32_short [of "drop 32 s" ?count 0 "[]"] n by simp
    then show ?thesis using assms
      by (simp add: header_parse_def bind_err_def field_ok Array_def)
  next
    case True
    then obtain vs where vs: "Array_loop ?count ULInt32 0 [] (drop 32 s)
        = Inr (vs, drop (4 * ?n) (drop 32 s))"
      using Array_loop_ULInt32_ok [of ?count 0 "drop 32 s" "[]"] n by auto
    have "length (drop (4 * ?n) (drop 32 s)) < 4 * ?n" using assms True by simp
    then have "Array_loop ?count ULInt32 0 [] (drop (4 * ?n) (drop 32 s)) = Inl ArrayError"
      using Array_loop_ULInt32_short [of "drop (4 * ?n) (drop 32 s)" ?count 0 "[]"] n by simp
    then show ?thesis using assms vs
      by (simp add: header_parse_def bind_err_def field_ok Array_def)
  qed
qed

lemma header_parse_ok:
  assumes "32 + 8 * raw_blocks ip s \<le> length s" "take 6 (drop 14 s) = tops_mark"
  shows "\<exists>h. header_parse ip s = Inr h \<and> size_field h = raw_size s
           \<and> length (block_start_ref h) = raw_blocks ip s
           \<and> length (block_end_ref h) = raw_blocks ip s"
proof -
  let ?n = "raw_blocks ip s"
  let ?count = "block_count ip (le_int (take 2 (drop 4 s)))"
  have n: "nat \<lceil>?count\<rceil> = ?n" by (simp add: raw_blocks_def raw_size_def)
  have "4 * ?n \<le> length (drop 32 s)" using assms by simp
  then obtain vs where vs: "Array_loop ?count ULInt32 0 [] (drop 32 s)
        = Inr (vs, drop (4 * ?n) (drop 32 s))" and lvs: "length vs = ?n"
    using Array_loop_ULInt32_ok [of ?count 0 "drop 32 s" "[]"] n by auto
  have "4 * ?n \<le> length (drop (4 * ?n) (drop 32 s))" using assms by simp
  then obtain ws where ws: "Array_loop ?count ULInt32 0 [] (drop (4 * ?n) (drop 32 s))
        = Inr (ws, drop (4 * ?n) (drop (4 * ?n) (drop 32 s)))" and lws: "length ws = ?n"
    using Array_loop_ULInt32_ok [of ?count 0 "drop (4 * ?n) (drop 32 s)" "[]"] n by auto
  show ?thesis using assms vs ws lvs lws
    by (simp add: header_parse_def bind_err_def field_ok Array_def raw_size_def)
qed

lemma header_parse_Inr:
  assumes "header_parse ip s = Inr h"
  shows "32 + 8 * raw_blocks ip s \<le> length s \<and> take 6 (drop 14 s) = tops_mark
       \<and> size_field h = raw_size s
       \<and> length (block_start_ref h) = raw_blocks ip s
       \<and> length (block_end_ref h) = raw_blocks ip s"
proof -
  have a: "20 \<le> length s"
    using assms header_parse_short20 [of s ip] by (cases "length s < 20") auto
  have b: "take 6 (drop 14 s) = tops_mark"
    using assms a header_parse_mismatch [of s ip] by (cases "take 6 (drop 14 s) = tops_mark") auto
  have c: "32 \<le> length s"
    using assms a b header_parse_short32 [of s ip] by (cases "length s < 32") auto
  have d: "32 + 8 * raw_blocks ip s \<le> length s"
    using assms b c header_parse_short_arrays [of s ip]
    by (cases "length s < 32 + 8 * raw_blocks ip s") auto
  from header_parse_ok [OF d b] assms show ?thesis using d b by auto
qed

lemma block_count_divisible:
  assumes "8 dvd (sz - 32)"
  shows "block_count ip sz = rat_of_int (sz - 32) / 8"
proof -
  from assms obtain k where k: "sz - 32 = 8 * k" by (auto simp: dvd_def)
  have two: "rat_of_int (8 * k) / 2 = rat_of_int (4 * k)" by simp
  have four: "rat_of_int (4 * k) / 4 = rat_of_int k" by simp
  show ?thesis
  proof (cases ip)
    case Python3
    then show ?thesis by (simp add: block_count_def k)
  next
    case Python2
    have "block_count Python2 sz = rat_of_int \<lfloor>rat_of_int \<lfloor>rat_of_int (8 * k) / 2\<rfloor> / 4\<rfloor>"
      using k by (simp add: block_count_def)
    also have "\<dots> = rat_of_int k"
      unfolding two floor_of_int four by simp
    finally show ?thesis using Python2 k by simp
  qed
qed

lemma block_count_nonpos:
  assumes "sz \<le> 32"
  shows "block_count ip sz \<le> 0"
proof (cases ip)
  case Python3
  then show ?thesis using assms by (simp add: block_count_def divide_nonpos_pos)
next
  case Python2
  have a: "rat_of_int (sz - 32) / 2 \<le> 0" using assms by (simp add: divide_nonpos_pos)
  then have "\<lfloor>rat_of_int (sz - 32) / 2\<rfloor> \<le> 0" by (simp add: floor_le_iff) 
  then have "rat_of_int \<lfloor>rat_of_int (sz - 32) / 2\<rfloor> / 4 \<le> 0" by (simp add: divide_nonpos_pos)
  then have "\<lfloor>rat_of_int \<lfloor>rat_of_int (sz - 32) / 2\<rfloor> / 4\<rfloor> \<le> 0" by (simp add: floor_le_iff)
  then show ?thesis using Python2 by (simp add: block_count_def)
qed

lemma raw_blocks_nonpos: "raw_size s \<le> 32 \<Longrightarrow> raw_blocks ip s = 0"
  using block_count_nonpos [of "raw_size s" ip] by (simp add: raw_blocks_def ceiling_le_iff)

text \<open>
  Claim C3, as stated: for every successfully parsed header the two block arrays have
  equal length, that length equals \<open>(size - 32) / 8\<close>, and this value is a non-negative
  integer. The equation fails: the parser accepts any value of the size field. For the
  32 fixed bytes with size 0 it returns a header with two empty arrays, under both
  interpreters, while \<open>(0 - 32) / 8 = -4\<close>.
\<close>

theorem header_size_zero_counterexample:
  "header_parse Python3 (fixed_header 0 0) = Inr (empty_blocks_parsed 0)
   \<and> header_parse Python2 (fixed_header 0 0) = Inr (empty_blocks_parsed 0)
   \<and> rat_of_nat (length (block_start_ref (empty_blocks_parsed 0)))
       \<noteq> rat_of_int (size_field (empty_blocks_parsed 0) - 32) / 8"
  by code_simp

text \<open>
  Claim C3, amended: for every successfully parsed header the two block arrays have equal
  length; that length is the number of iterations of the array loop for the count
  \<open>(size - 0x20) / 2 / 4\<close>, that is the least natural number not below the count; it
  equals \<open>(size - 32) / 8\<close> whenever \<open>size \<ge> 32\<close> and \<open>size - 32\<close> is a multiple of
  8, and it is 0 whenever \<open>size \<le> 32\<close>.
\<close>

theorem header_parse_block_lengths:
  assumes "header_parse ip raw = Inr h"
  shows "length (block_start_ref h) = length (block_end_ref h)
       \<and> length (block_start_ref h) = nat \<lceil>block_count ip (size_field h)\<rceil>
       \<and> (32 \<le> size_field h \<and> 8 dvd (size_field h - 32) \<longrightarrow>
            rat_of_nat (length (block_start_ref h)) = rat_of_int (size_field h - 32) / 8)
       \<and> (size_field h \<le> 32 \<longrightarrow> length (block_start_ref h) = 0)"
proof -
  from header_parse_Inr [OF assms]
  have sz: "size_field h = raw_size raw"
    and ls: "length (block_start_ref h) = raw_blocks ip raw"
    and le: "length (block_end_ref h) = raw_blocks ip raw"
    by simp_all
  have n: "length (block_start_ref h) = nat \<lceil>block_count ip (size_field h)\<rceil>"
    using ls sz by (simp add: raw_blocks_def)
  have div: "rat_of_nat (length (block_start_ref h)) = rat_of_int (size_field h - 32) / 8"
    if "32 \<le> size_field h" "8 dvd (size_field h - 32)"
  proof -
    from that(2) obtain k where k: "size_field h - 32 = 8 * k" by (auto simp: dvd_def)
    have "0 \<le> k" using that(1) k by linarith
    have "block_count ip (size_field h) = rat_of_int k"
      using block_count_divisible [OF that(2), of ip] k by simp
    then have "length (block_start_ref h) = nat k" using n by simp
    then show ?thesis using \<open>0 \<le> k\<close> k by simp
  qed
  have neg: "length (block_start_ref h) = 0" if "size_field h \<le> 32"
    using that raw_blocks_nonpos [of raw ip] ls sz by simp
  show ?thesis using ls le n div neg by simp
qed

theorem header_parse_block_lengths_witness:
  "header_parse Python3 one_block_header = Inr one_block_parsed
   \<and> length (block_start_ref one_block_parsed) = length (block_end_ref one_block_parsed)
   \<and> rat_of_nat (length (block_start_ref one_block_parsed))
       = rat_of_int (size_field one_block_parsed - 32) / 8"
proof -
  have p: "header_parse Python3 one_block_header = Inr one_block_parsed"
    by code_simp
  show ?thesis
    using header_parse_block_lengths [OF p] p by (simp add: one_block_parsed_def)
qed

text \<open>
  Claim C4, as stated: parsing fails whenever \<open>(size - 0x20) / 8\<close> is not a non-negative
  integer. The code has no such test: for the 32 fixed bytes with size 31 (the quotient
  is \<open>-1/8\<close>) the parser returns a header, under both interpreters.
\<close>

theorem header_size_31_counterexample:
  "header_parse Python3 (fixed_header 31 0) = Inr (empty_blocks_parsed 31)
   \<and> header_parse Python2 (fixed_header 31 0) = Inr (empty_blocks_parsed 31)
   \<and> rat_of_int (size_field (empty_blocks_parsed 31) - 0x20) / 8 < 0"
  by code_simp

text \<open>
  Claim C4, amended: header parsing does not examine the value of the size field beyond
  using it as the loop count of the two arrays. It fails with \<open>FieldError\<close> when fewer
  than the 32 fixed bytes are present, with \<open>ConstError\<close> when the marker differs, and
  with \<open>ArrayError\<close> when the input is shorter than \<open>32 + 8 * n\<close> bytes, \<open>n\<close> being
  the number of loop iterations for the size; in every other case it returns a header.
  \<open>n\<close> is 0 whenever \<open>size \<le> 32\<close>, so a size that implies a negative length never
  makes the parser fail.
\<close>

theorem header_parse_outcome:
  "(length raw < 20 \<longrightarrow> header_parse ip raw = Inl FieldError)
   \<and> (20 \<le> length raw \<and> take 6 (drop 14 raw) \<noteq> tops_mark \<longrightarrow>
        header_parse ip raw = Inl ConstError)
   \<and> (20 \<le> length raw \<and> take 6 (drop 14 raw) = tops_mark \<and> length raw < 32 \<longrightarrow>
        header_parse ip raw = Inl FieldError)
   \<and> (32 \<le> length raw \<and> take 6 (drop 14 raw) = tops_mark
        \<and> length raw < 32 + 8 * raw_blocks ip raw \<longrightarrow>
        header_parse ip raw = Inl ArrayError)
   \<and> (32 + 8 * raw_blocks ip raw \<le> length raw \<and> take 6 (drop 14 raw) = tops_mark \<longrightarrow>
        (\<exists>h. header_parse ip raw = Inr h \<and> size_field h = raw_size raw))
   \<and> (raw_size raw \<le> 32 \<longrightarrow> raw_blocks ip raw = 0)"
proof -
  have "\<exists>h. header_parse ip raw = Inr h \<and> size_field h = raw_size raw"
    if "32 + 8 * raw_blocks ip raw \<le> length raw" "take 6 (drop 14 raw) = tops_mark"
    using header_parse_ok [OF that] by blast
  then show ?thesis
    using header_parse_short20 [of raw ip] header_parse_mismatch [of raw ip]
      header_parse_short32 [of raw ip] header_parse_short_arrays [of raw ip]
      raw_blocks_nonpos [of raw ip]
    by blast
qed

theorem header_parse_outcome_witness:
  "\<exists>h. header_parse Python3 (fixed_header 31 0) = Inr h \<and> size_field h = 31"
proof -
  have sz: "raw_size (fixed_header 31 0) = 31"
    by (simp add: raw_size_def fixed_header_def)
  have n: "raw_blocks Python3 (fixed_header 31 0) = 0"
    by (simp add: raw_blocks_def sz block_count_def)
  have len: "32 + 8 * raw_blocks Python3 (fixed_header 31 0) \<le> length (fixed_header 31 0)"
    unfolding n by (simp add: fixed_header_def)
  have mark: "take 6 (drop 14 (fixed_header 31 0)) = tops_mark"
    by (simp add: fixed_header_def tops_mark_def)
  show ?thesis
    using header_parse_outcome [of "fixed_header 31 0" Python3] len mark sz by simp
qed

section \<open>Block containment\<close>

lemma block_contains_loop_iff:
  assumes "length (block_start_ref h) = length (block_end_ref h)"
    and "\<forall>i \<in> set is. i < length (block_start_ref h)"
  shows "block_contains_loop is h s e =
     Inr (\<exists>i \<in> set is. block_start_ref h ! i \<le> s \<and> e \<le> block_end_ref h ! i)"
  using assms(2)
proof (induction "is")
  case Nil show ?case by simp
next
  case (Cons i "is")
  then show ?case using assms(1) by auto
qed

lemma block_contains_eq_lengths:
  assumes "header self = Some h" "length (block_start_ref h) = length (block_end_ref h)"
  shows "block_contains self s e =
     Inr (\<exists>i < length (block_start_ref h). block_start_ref h ! i \<le> s \<and> e \<le> block_end_ref h ! i)"
proof -
  have "block_contains self s e =
      Inr (\<exists>i \<in> set [0 ..< length (block_start_ref h)]. block_start_ref h ! i \<le> s \<and> e \<le> block_end_ref h ! i)"
    using assms block_contains_loop_iff [of h "[0 ..< length (block_start_ref h)]" s e]
    by (simp add: block_contains_def)
  then show ?thesis by (simp add: Bex_def)
qed

text \<open>
  Claim C7: a page address range \<open>[start_ref, end_ref]\<close> passes the block-containment
  test of a parsed header if and only if some index \<open>i\<close> has
  \<open>block_start_ref[i] \<le> start_ref\<close> and \<open>end_ref \<le> block_end_ref[i]\<close>; the test
  itself cannot fail on a parsed header, whose two arrays have the same length.
\<close>

theorem block_contains_iff_some_block:
  assumes "header_parse ip raw = Inr h" and "header self = Some h"
  shows "block_contains self start_ref end_ref =
           Inr (\<exists>i < length (block_start_ref h).
                  block_start_ref h ! i \<le> start_ref \<and> end_ref \<le> block_end_ref h ! i)"
proof -
  have "length (block_start_ref h) = length (block_end_ref h)"
    using header_parse_Inr [OF assms(1)] by simp
  then show ?thesis by (rule block_contains_eq_lengths [OF assms(2)])
qed

theorem block_contains_iff_some_block_witness:
  "block_contains sample_tps 0x200 0x300 = Inr True
   \<and> block_contains sample_tps 0x1FF 0x300 = Inr False"
proof -
  have p: "header_parse Python3 one_block_header = Inr one_block_parsed"
    by code_simp
  have h: "header sample_tps = Some one_block_parsed"
    by (simp add: sample_tps_def)
  show ?thesis
    using block_contains_iff_some_block [OF p h, of "0x200" "0x300"]
      block_contains_iff_some_block [OF p h, of "0x1FF" "0x300"]
    by (simp add: one_block_parsed_def)
qed

section \<open>Reading\<close>

text \<open>
  Claim C6: when the decryptor reports that the file is not encrypted,
  \<open>read(size, pos)\<close> returns exactly the \<open>size\<close> bytes of the underlying byte source
  that start at offset \<open>pos\<close> (fewer where the source ends before), for every
  non-negative size and every position within the file; the cursor ends after them.
\<close>

theorem read_not_encrypted_is_raw_read:
  assumes "\<not> is_encrypted (decryptor self)"
    and "0 \<le> pos" and "pos \<le> int (length (mdata (tps_file self)))" and "0 \<le> sz"
  shows "TPS_read self sz (Some pos) =
           Inr (take (nat sz) (drop (nat pos) (mdata (tps_file self))),
                self\<lparr>tps_file := (tps_file self)
                  \<lparr>mpos := nat pos + length (take (nat sz) (drop (nat pos) (mdata (tps_file self))))\<rparr>\<rparr>)"
  using assms
  by (simp add: TPS_read_def TPS_seek_def mmap_seek_def mmap_read_def bind_err_def Let_def)

theorem read_not_encrypted_is_raw_read_witness:
  "map_sum id fst (TPS_read sample_tps 4 (Some 14)) = Inr [0x74, 0x4F, 0x70, 0x53]"
proof -
  have a: "\<not> is_encrypted (decryptor sample_tps)"
    by (simp add: sample_tps_def plain_decryptor_def)
  have b: "(14 :: int) \<le> int (length (mdata (tps_file sample_tps)))"
    by (simp add: sample_tps_def sample_file_def one_block_header_def fixed_header_def)
  show ?thesis
    using read_not_encrypted_is_raw_read [OF a _ b, of 4]
    by (simp add: sample_tps_def sample_file_def one_block_header_def fixed_header_def)
qed

section \<open>The constructor\<close>

lemma and_63_mod: "(x :: int) AND 0x3F = x mod 64"
proof -
  have "(0x3F :: int) = mask 6" by (simp add: mask_eq_exp_minus_1)
  then have "x AND 0x3F = take_bit 6 x" by (simp add: take_bit_eq_mask)
  then show ?thesis by (simp add: take_bit_eq_mod)
qed

lemma misaligned_iff: "(int n AND 0x3F \<noteq> 0) \<longleftrightarrow> n mod 64 \<noteq> 0"
proof -
  have "int n mod 64 = int (n mod 64)" by (simp add: zmod_int)
  then show ?thesis unfolding and_63_mod by simp
qed

lemma TPS_read_fresh:
  assumes "mpos (tps_file self) = 0"
  shows "\<exists>m. TPS_read self 0x200 None =
           Inr (decrypted_header (decryptor self) (mdata (tps_file self)), self\<lparr>tps_file := m\<rparr>)"
proof (cases "is_encrypted (decryptor self)")
  case True
  then have "TPS_read self 0x200 None =
      Inr (decrypted_header (decryptor self) (mdata (tps_file self)), self\<lparr>tps_file := tps_file self\<rparr>)"
    using assms by (simp add: TPS_read_def bind_err_def mmap_tell_def decrypted_header_def)
  then show ?thesis by blast
next
  case False
  then have "TPS_read self 0x200 None =
      Inr (decrypted_header (decryptor self) (mdata (tps_file self)),
           self\<lparr>tps_file := (tps_file self)\<lparr>mpos := min (length (mdata (tps_file self))) 512\<rparr>\<rparr>)"
    using assms
    by (simp add: TPS_read_def bind_err_def mmap_tell_def mmap_read_def decrypted_header_def Let_def)
  then show ?thesis by blast
qed

lemma init_try_ConstError:
  assumes "mpos (tps_file self) = 0"
    and "header_parse (py env) (decrypted_header (decryptor self) (mdata (tps_file self)))
           = Inl ConstError"
  shows "\<exists>m. init_try env self ct = Inl (ConstError, self\<lparr>tps_file := m\<rparr>)"
proof -
  from TPS_read_fresh [OF assms(1)] obtain m where
    "TPS_read self 0x200 None =
       Inr (decrypted_header (decryptor self) (mdata (tps_file self)), self\<lparr>tps_file := m\<rparr>)"
    by blast
  then have "init_try env self ct = Inl (ConstError, self\<lparr>tps_file := m\<rparr>)"
    using assms(2) by (simp add: init_try_def)
  then show ?thesis by blast
qed

lemma getdefinition_with_pages:
  assumes "pages self = Some pg"
  shows "\<exists>ts. getdefinition env self = Inr (self\<lparr>tables := ts\<rparr>)"
proof -
  have "getdefinition env self =
      Inr (self\<lparr>tables := fst (pages_loop (leaf_records env pg (check self))
                                  (rev (pages_list pg)) (tables self, []))\<rparr>)"
    using assms by (simp add: getdefinition_def getdefinition_scan_def bind_err_def)
  then show ?thesis by blast
qed

lemma init_try_parsed:
  assumes "mpos (tps_file self) = 0"
    and "header_parse (py env) (decrypted_header (decryptor self) (mdata (tps_file self)))
           = Inr h"
    and "\<forall>s root chk. \<exists>pg. new_TpsPagesList env s root chk = Inr pg"
  shows "\<exists>self'. init_try env self ct = Inr self' \<and> header self' = Some h"
proof -
  from TPS_read_fresh [OF assms(1)] obtain m where
    r: "TPS_read self 0x200 None =
       Inr (decrypted_header (decryptor self) (mdata (tps_file self)), self\<lparr>tps_file := m\<rparr>)"
    by blast
  let ?self2 = "self\<lparr>tps_file := m, header := Some h\<rparr>"
  from assms(3) obtain pg where
    pg: "new_TpsPagesList env ?self2 (page_root_ref h) (check ?self2) = Inr pg"
    by blast
  let ?self3 = "?self2\<lparr>pages := Some pg\<rparr>"
  from getdefinition_with_pages [of ?self3 pg env] obtain ts where
    ts: "getdefinition env ?self3 = Inr (?self3\<lparr>tables := ts\<rparr>)" by auto
  have "init_try env self ct = Inr (set_current_table (?self3\<lparr>tables := ts\<rparr>) ct)"
    using r assms(2) pg ts by (simp add: init_try_def Let_def)
  then show ?thesis by (simp add: set_current_table_def)
qed

text \<open>
  Claim C1, as stated: for every file whose decrypted marker bytes differ from the
  constant, constructing the object fails: an error is raised and no partially
  constructed object is returned. The constructor catches the \<open>ConstError\<close> of the
  parser instead: for a file of twenty zero bytes it prints one line and returns an
  object whose \<open>header\<close> attribute is absent.
\<close>

theorem init_no_marker_counterexample:
  "fst (TPS_init sample_env ''nomarker.tps'' None None False None None None plain_decryptor)
     = [Print ''Bad cryptographic keys.'']
   \<and> map_sum id header
       (snd (TPS_init sample_env ''nomarker.tps'' None None False None None None plain_decryptor))
     = Inr None"
  by code_simp

text \<open>
  Claim C1, amended: for every non-empty file whose decrypted header holds the twenty
  bytes up to the end of the marker and whose marker bytes differ from the constant, the
  constructor catches the \<open>ConstError\<close>, prints \<^verbatim>\<open>Bad cryptographic keys.\<close> (after the
  size warning, if one is due) and returns normally: the object has no header and no
  page directory, its table registry is empty and no table is selected.
\<close>

theorem init_marker_mismatch_returns_object:
  assumes "files env fn = Some content" and "content \<noteq> []"
    and "20 \<le> length (decrypted_header (dc \<lparr>mdata = content, mpos = 0\<rparr> pw) content)"
    and "take 6 (drop 14 (decrypted_header (dc \<lparr>mdata = content, mpos = 0\<rparr> pw) content))
           \<noteq> tops_mark"
  shows "\<exists>self. TPS_init env fn enc pw chk ct df tf dc =
            ((if chk \<and> length content mod 64 \<noteq> 0 then [size_warning] else [])
               @ [Print ''Bad cryptographic keys.''], Inr self)
          \<and> header self = None \<and> pages self = None \<and> tables self = []
          \<and> current_table_number self = None"
proof -
  let ?m = "\<lparr>mdata = content, mpos = 0\<rparr>"
  let ?self = "\<lparr> filename = fn, encoding = enc, password = pw, check = chk,
                 current_table_number = None, date_fieldname = df, time_fieldname = tf,
                 tables = [], self_file_size = int (length content), tps_file = ?m,
                 decryptor = dc ?m pw, header = None, pages = None \<rparr>"
  have "header_parse (py env) (decrypted_header (decryptor ?self) (mdata (tps_file ?self)))
          = Inl ConstError"
    using header_parse_mismatch [OF assms(3) assms(4)] by simp
  from init_try_ConstError [OF _ this, of ct] obtain m where
    "init_try env ?self ct = Inl (ConstError, ?self\<lparr>tps_file := m\<rparr>)" by auto
  then have "TPS_init env fn enc pw chk ct df tf dc =
            ((if chk \<and> length content mod 64 \<noteq> 0 then [size_warning] else [])
               @ [Print ''Bad cryptographic keys.''], Inr (?self\<lparr>tps_file := m\<rparr>))"
    using assms(1,2) by (simp add: TPS_init_def Let_def misaligned_iff size_warning_def)
  then show ?thesis by simp
qed

theorem init_marker_mismatch_returns_object_witness:
  "\<exists>self. TPS_init sample_env ''nomarker.tps'' None None True None None None plain_decryptor =
            ([size_warning, Print ''Bad cryptographic keys.''], Inr self)
          \<and> header self = None \<and> pages self = None \<and> tables self = []
          \<and> current_table_number self = None"
proof -
  have a: "files sample_env ''nomarker.tps'' = Some no_marker_file"
    by (simp add: sample_env_def)
  have b: "no_marker_file \<noteq> []" by (simp add: no_marker_file_def)
  have h: "decrypted_header (plain_decryptor \<lparr>mdata = no_marker_file, mpos = 0\<rparr> None) no_marker_file
      = no_marker_file"
    by (simp add: decrypted_header_def plain_decryptor_def no_marker_file_def)
  have c: "20 \<le> length (decrypted_header (plain_decryptor \<lparr>mdata = no_marker_file, mpos = 0\<rparr> None) no_marker_file)"
    unfolding h by (simp add: no_marker_file_def)
  have d: "take 6 (drop 14 (decrypted_header (plain_decryptor \<lparr>mdata = no_marker_file, mpos = 0\<rparr> None) no_marker_file))
      \<noteq> tops_mark"
    by code_simp
  have e: "length no_marker_file mod 64 \<noteq> 0" by (simp add: no_marker_file_def)
  show ?thesis
    using init_marker_mismatch_returns_object [where env = sample_env
      and fn = "''nomarker.tps''" and content = no_marker_file and dc = plain_decryptor
      and pw = None and enc = None and chk = True and ct = None and df = None and tf = None,
      OF a b c d] e
    by simp
qed

text \<open>
  Claim C5, as stated: for every file whose size is not a multiple of 64, opening
  succeeds, with a warning when \<open>check\<close> is set and silently otherwise. Opening does not
  succeed for every such file: a file of one byte is too short for the header, and the
  constructor raises \<open>FieldError\<close> with and without \<open>check\<close>.
\<close>

theorem init_short_file_counterexample:
  "TPS_init sample_env ''short.tps'' None None True None None None plain_decryptor
     = ([size_warning], Inl FieldError)
   \<and> TPS_init sample_env ''short.tps'' None None False None None None plain_decryptor
     = ([], Inl FieldError)"
  by (simp add: TPS_init_def sample_env_def init_try_def TPS_read_def plain_decryptor_def
      mmap_tell_def mmap_read_def bind_err_def header_parse_short20 size_warning_def Let_def)

text \<open>
  Claim C5, amended: for every file whose size is not a multiple of 64, whose decrypted
  header parses (right marker, and the 32 fixed bytes and both arrays present) and whose
  page directory can be built, opening with \<open>check\<close> set succeeds and emits exactly the
  size warning, and opening without \<open>check\<close> succeeds and emits nothing: the size test
  only warns and never blocks opening.
\<close>

theorem init_misaligned_size_warns_only:
  assumes "files env fn = Some content" and "length content mod 64 \<noteq> 0"
    and "32 + 8 * raw_blocks (py env) (decrypted_header (dc \<lparr>mdata = content, mpos = 0\<rparr> pw) content)
           \<le> length (decrypted_header (dc \<lparr>mdata = content, mpos = 0\<rparr> pw) content)"
    and "take 6 (drop 14 (decrypted_header (dc \<lparr>mdata = content, mpos = 0\<rparr> pw) content))
           = tops_mark"
    and "\<forall>s root c. \<exists>pg. new_TpsPagesList env s root c = Inr pg"
  shows "\<exists>self. TPS_init env fn enc pw chk ct df tf dc =
            ((if chk then [size_warning] else []), Inr self)"
proof -
  let ?m = "\<lparr>mdata = content, mpos = 0\<rparr>"
  let ?self = "\<lparr> filename = fn, encoding = enc, password = pw, check = chk,
                 current_table_number = None, date_fieldname = df, time_fieldname = tf,
                 tables = [], self_file_size = int (length content), tps_file = ?m,
                 decryptor = dc ?m pw, header = None, pages = None \<rparr>"
  have ne: "content \<noteq> []" using assms(2) by auto
  from header_parse_ok [OF assms(3) assms(4)] obtain h where
    "header_parse (py env) (decrypted_header (decryptor ?self) (mdata (tps_file ?self))) = Inr h"
    by auto
  from init_try_parsed [OF _ this assms(5), of ct] obtain self' where
    "init_try env ?self ct = Inr self'" by auto
  then have "TPS_init env fn enc pw chk ct df tf dc =
            ((if chk then [size_warning] else []), Inr self')"
    using assms(1,2) ne by (simp add: TPS_init_def Let_def misaligned_iff size_warning_def)
  then show ?thesis by blast
qed

theorem init_misaligned_size_warns_only_witness:
  "(\<exists>self. TPS_init sample_env ''sample.tps'' None None True None None None plain_decryptor =
            ([size_warning], Inr self))
   \<and> (\<exists>self. TPS_init sample_env ''sample.tps'' None None False None None None plain_decryptor =
            ([], Inr self))"
proof -
  have a: "files sample_env ''sample.tps'' = Some sample_file"
    by (simp add: sample_env_def)
  have b: "length sample_file mod 64 \<noteq> 0"
    by (simp add: sample_file_def one_block_header_def fixed_header_def)
  have h: "decrypted_header (plain_decryptor \<lparr>mdata = sample_file, mpos = 0\<rparr> None) sample_file
      = sample_file"
    by (simp add: decrypted_header_def plain_decryptor_def sample_file_def
        one_block_header_def fixed_header_def)
  have n: "raw_blocks (py sample_env) sample_file = 1"
    by (simp add: raw_blocks_def raw_size_def block_count_def sample_file_def
        one_block_header_def fixed_header_def sample_env_def)
  have c: "32 + 8 * raw_blocks (py sample_env)
             (decrypted_header (plain_decryptor \<lparr>mdata = sample_file, mpos = 0\<rparr> None) sample_file)
           \<le> length (decrypted_header (plain_decryptor \<lparr>mdata = sample_file, mpos = 0\<rparr> None) sample_file)"
    unfolding h n by (simp add: sample_file_def one_block_header_def fixed_header_def)
  have d: "take 6 (drop 14 (decrypted_header (plain_decryptor \<lparr>mdata = sample_file, mpos = 0\<rparr> None) sample_file))
      = tops_mark"
    unfolding h by (simp add: sample_file_def one_block_header_def fixed_header_def tops_mark_def)
  have e: "\<forall>s root c. \<exists>pg. new_TpsPagesList sample_env s root c = Inr pg"
    by (simp add: sample_env_def)
  note t = init_misaligned_size_warns_only [where env = sample_env and fn = "''sample.tps''"
      and content = sample_file and dc = plain_decryptor and pw = None and enc = None
      and ct = None and df = None and tf = None, OF a b c d e]
  show ?thesis
    using t [of True] t [of False] by simp
qed

section \<open>The schema scan\<close>

lemma registry_after_Nil: "registry_after ts [] = ts"
  by (simp add: registry_after_def)

lemma registry_after_Cons:
  "registry_after ts (x # xs) = registry_after (process_record (snd x) ts) xs"
  by (simp add: registry_after_def)

lemma registry_after_append:
  "registry_after ts (xs @ ys) = registry_after (registry_after ts xs) ys"
  by (simp add: registry_after_def)

lemma stops_nil: "stops_at_first_complete ts [] [] ts"
  by (simp add: stops_at_first_complete_def registry_after_Nil)

lemma stops_none: "iscomplete ts \<Longrightarrow> stops_at_first_complete ts stream [] ts"
  by (simp add: stops_at_first_complete_def registry_after_Nil)

lemma stops_here:
  "iscomplete (process_record (snd x) ts) \<Longrightarrow>
   stops_at_first_complete ts (x # xs) [x] (process_record (snd x) ts)"
  by (simp add: stops_at_first_complete_def registry_after_Cons registry_after_Nil)

lemma stopsI:
  assumes "seen = take (length seen) stream" and "ts' = registry_after ts seen"
    and "\<And>k. 0 < k \<Longrightarrow> k < length seen \<Longrightarrow> \<not> iscomplete (registry_after ts (take k seen))"
    and "seen \<noteq> stream \<Longrightarrow> iscomplete ts'"
  shows "stops_at_first_complete ts stream seen ts'"
  unfolding stops_at_first_complete_def using assms by blast

lemma stops_prefix: "stops_at_first_complete ts stream seen ts' \<Longrightarrow> seen = take (length seen) stream"
  unfolding stops_at_first_complete_def by blast

lemma stops_result: "stops_at_first_complete ts stream seen ts' \<Longrightarrow> ts' = registry_after ts seen"
  unfolding stops_at_first_complete_def by blast

lemma stops_before:
  "stops_at_first_complete ts stream seen ts' \<Longrightarrow> 0 < k \<Longrightarrow> k < length seen \<Longrightarrow>
   \<not> iscomplete (registry_after ts (take k seen))"
  unfolding stops_at_first_complete_def by blast

lemma stops_early:
  "stops_at_first_complete ts stream seen ts' \<Longrightarrow> seen \<noteq> stream \<Longrightarrow> iscomplete ts'"
  unfolding stops_at_first_complete_def by blast

lemma prefix_length: "seen = take (length seen) stream \<Longrightarrow> length seen \<le> length stream"
proof -
  assume a: "seen = take (length seen) stream"
  have "length (take (length seen) stream) \<le> length stream" by simp
  then show ?thesis using a by simp
qed

lemma stops_cons:
  assumes n: "\<not> iscomplete (process_record (snd x) ts)"
    and g: "stops_at_first_complete (process_record (snd x) ts) xs seen ts'"
  shows "stops_at_first_complete ts (x # xs) (x # seen) ts'"
proof (rule stopsI)
  have "take (length seen) xs = seen" using stops_prefix [OF g] by simp
  then show "x # seen = take (length (x # seen)) (x # xs)" by simp
next
  show "ts' = registry_after ts (x # seen)"
    using stops_result [OF g] by (simp add: registry_after_Cons)
next
  fix k assume k: "0 < k" "k < length (x # seen)"
  then obtain j where j: "k = Suc j" by (cases k) auto
  show "\<not> iscomplete (registry_after ts (take k (x # seen)))"
  proof (cases "j = 0")
    case True
    then show ?thesis using n j by (simp add: registry_after_Cons registry_after_Nil)
  next
    case False
    then have "0 < j" "j < length seen" using k j by simp_all
    from stops_before [OF g this] show ?thesis using j
      by (simp add: registry_after_Cons)
  qed
next
  assume "x # seen \<noteq> x # xs"
  then have "seen \<noteq> xs" by simp
  then show "iscomplete ts'" by (rule stops_early [OF g])
qed

lemma stops_whole_then:
  assumes g1: "stops_at_first_complete ts s1 s1 ts1" and n: "\<not> iscomplete ts1"
    and g2: "stops_at_first_complete ts1 s2 seen ts'"
  shows "stops_at_first_complete ts (s1 @ s2) (s1 @ seen) ts'"
proof (rule stopsI)
  have ts1: "ts1 = registry_after ts s1" by (rule stops_result [OF g1])
  have "take (length seen) s2 = seen" using stops_prefix [OF g2] by simp
  then show "s1 @ seen = take (length (s1 @ seen)) (s1 @ s2)" by simp
  show "ts' = registry_after ts (s1 @ seen)"
    using stops_result [OF g2] ts1 by (simp add: registry_after_append)
  show "\<not> iscomplete (registry_after ts (take k (s1 @ seen)))"
    if "0 < k" "k < length (s1 @ seen)" for k
  proof -
    consider "k < length s1" | "k = length s1" | "length s1 < k" by linarith
    then show ?thesis
    proof cases
      case 1
      from stops_before [OF g1 that(1) 1] show ?thesis using 1 by simp
    next
      case 2
      then show ?thesis using n ts1 by simp
    next
      case 3
      then have "0 < k - length s1" "k - length s1 < length seen" using that by simp_all
      from stops_before [OF g2 this] show ?thesis using 3 ts1
        by (simp add: registry_after_append)
    qed
  qed
  show "iscomplete ts'" if "s1 @ seen \<noteq> s1 @ s2"
  proof -
    from that have "seen \<noteq> s2" by simp
    then show ?thesis by (rule stops_early [OF g2])
  qed
qed

lemma stops_extend:
  assumes g: "stops_at_first_complete ts s1 seen ts'" and c: "iscomplete ts'"
  shows "stops_at_first_complete ts (s1 @ s2) seen ts'"
proof (rule stopsI)
  have p: "seen = take (length seen) s1" by (rule stops_prefix [OF g])
  have "length seen \<le> length s1" by (rule prefix_length [OF p])
  then have "take (length seen) (s1 @ s2) = take (length seen) s1" by simp
  then show "seen = take (length seen) (s1 @ s2)" using p by simp
  show "ts' = registry_after ts seen" by (rule stops_result [OF g])
  show "\<not> iscomplete (registry_after ts (take k seen))" if "0 < k" "k < length seen" for k
    by (rule stops_before [OF g that])
  show "iscomplete ts'" by (rule c)
qed

lemma records_loop_spec:
  "\<exists>seen. snd (records_loop p rs st) = snd st @ seen
        \<and> stops_at_first_complete (fst st) (map (Pair p) rs) seen (fst (records_loop p rs st))"
proof (induction rs arbitrary: st)
  case Nil
  show ?case using stops_nil by simp
next
  case (Cons r rs)
  let ?ts' = "process_record r (fst st)"
  let ?st' = "(?ts', snd st @ [(p, r)])"
  show ?case
  proof (cases "iscomplete ?ts'")
    case True
    then have "stops_at_first_complete (fst st) ((p, r) # map (Pair p) rs) [(p, r)] ?ts'"
      using stops_here [of "(p, r)" "fst st" "map (Pair p) rs"] by simp
    then show ?thesis using True by (simp add: Let_def)
  next
    case False
    from Cons.IH [of ?st'] obtain seen where
      s: "snd (records_loop p rs ?st') = (snd st @ [(p, r)]) @ seen"
      and g: "stops_at_first_complete ?ts' (map (Pair p) rs) seen (fst (records_loop p rs ?st'))"
      by auto
    have "stops_at_first_complete (fst st) ((p, r) # map (Pair p) rs) ((p, r) # seen)
            (fst (records_loop p rs ?st'))"
      using stops_cons [of "(p, r)" "fst st" "map (Pair p) rs" seen] False g by simp
    then show ?thesis using False s by (simp add: Let_def)
  qed
qed

lemma pages_loop_spec:
  "\<exists>seen. snd (pages_loop lr ps st) = snd st @ seen
        \<and> stops_at_first_complete (fst st) (stream_of lr ps) seen (fst (pages_loop lr ps st))"
proof (induction ps arbitrary: st)
  case Nil
  show ?case using stops_nil by (simp add: stream_of_def)
next
  case (Cons p ps)
  let ?page = "case lr p of Some rs \<Rightarrow> map (Pair p) rs | None \<Rightarrow> []"
  let ?st' = "case lr p of Some rs \<Rightarrow> records_loop p rs st | None \<Rightarrow> st"
  have str: "stream_of lr (p # ps) = ?page @ stream_of lr ps" by (simp add: stream_of_def)
  have "\<exists>seen. snd ?st' = snd st @ seen \<and> stops_at_first_complete (fst st) ?page seen (fst ?st')"
  proof (cases "lr p")
    case None
    then show ?thesis using stops_nil by simp
  next
    case (Some rs)
    then show ?thesis using records_loop_spec [of p rs st] by simp
  qed
  then obtain seen1 where s1: "snd ?st' = snd st @ seen1"
    and g1: "stops_at_first_complete (fst st) ?page seen1 (fst ?st')" by blast
  show ?case
  proof (cases "iscomplete (fst ?st')")
    case True
    have "stops_at_first_complete (fst st) (?page @ stream_of lr ps) seen1 (fst ?st')"
      using stops_extend [OF g1 True] .
    then show ?thesis using True s1 str by (simp add: Let_def)
  next
    case False
    have whole: "seen1 = ?page" using stops_early [OF g1] False by blast
    from Cons.IH [of ?st'] obtain seen2 where
      s2: "snd (pages_loop lr ps ?st') = snd ?st' @ seen2"
      and g2: "stops_at_first_complete (fst ?st') (stream_of lr ps) seen2 (fst (pages_loop lr ps ?st'))"
      by blast
    have "stops_at_first_complete (fst st) (?page @ stream_of lr ps) (?page @ seen2)
            (fst (pages_loop lr ps ?st'))"
      using stops_whole_then [of "fst st" ?page "fst ?st'" "stream_of lr ps" seen2] g1 whole False g2
      by simp
    then show ?thesis using False s1 s2 whole str by (simp add: Let_def)
  qed
qed

lemma stream_of_leaf_records:
  "stream_of (leaf_records env pg chk) (rev (pages_list pg)) = leaf_stream env pg chk"
  unfolding stream_of_def leaf_stream_def leaf_records_def
  by (rule arg_cong [where f = concat]) (rule map_cong, simp_all)

text \<open>
  Claim C2: the schema scan takes the pages in reverse discovery order (the reverse of
  \<open>pages.list()\<close>), runs its loop body only on records of leaf pages (hierarchy level
  0), and stops as soon as \<open>iscomplete()\<close> returns true, also in the middle of a page.
  \<open>iscomplete()\<close> is called after each record and after each page. So the records
  handled are a prefix of the records of the leaf pages in reverse discovery order; the
  registry is complete after none of the handled records but possibly the last; and
  when a record is left unhandled, the registry is complete at the end. The registry
  stored in the object is the one obtained from the handled records.
\<close>

theorem getdefinition_stops_when_complete:
  assumes "pages self = Some pg"
  shows "\<exists>ts seen. getdefinition_scan env self = Inr (ts, seen)
          \<and> getdefinition env self = Inr (self\<lparr>tables := ts\<rparr>)
          \<and> seen = take (length seen) (leaf_stream env pg (check self))
          \<and> (\<forall>x \<in> set seen. hierarchy_level (pages_getitem pg (fst x)) = 0)
          \<and> ts = registry_after (tables self) seen
          \<and> (\<forall>k. 0 < k \<and> k < length seen \<longrightarrow>
                \<not> iscomplete (registry_after (tables self) (take k seen)))
          \<and> (seen \<noteq> leaf_stream env pg (check self) \<longrightarrow> iscomplete ts)"
proof -
  let ?lr = "leaf_records env pg (check self)"
  let ?res = "pages_loop ?lr (rev (pages_list pg)) (tables self, [])"
  from pages_loop_spec [of ?lr "rev (pages_list pg)" "(tables self, [])"]
  obtain seen where s: "snd ?res = seen"
    and g: "stops_at_first_complete (tables self) (leaf_stream env pg (check self)) seen (fst ?res)"
    by (auto simp: stream_of_leaf_records)
  have scan: "getdefinition_scan env self = Inr (fst ?res, seen)"
    using assms s by (simp add: getdefinition_scan_def prod_eq_iff)
  have gd: "getdefinition env self = Inr (self\<lparr>tables := fst ?res\<rparr>)"
    using assms by (simp add: getdefinition_def getdefinition_scan_def bind_err_def)
  have pre: "seen = take (length seen) (leaf_stream env pg (check self))"
    by (rule stops_prefix [OF g])
  have leaf: "hierarchy_level (pages_getitem pg (fst x)) = 0" if "x \<in> set seen" for x
  proof -
    have "set seen \<subseteq> set (leaf_stream env pg (check self))"
      using pre set_take_subset [of "length seen" "leaf_stream env pg (check self)"] by simp
    then have "x \<in> set (leaf_stream env pg (check self))" using that by blast
    then show ?thesis by (auto simp: leaf_stream_def split: if_splits)
  qed
  have before: "\<not> iscomplete (registry_after (tables self) (take k seen))"
    if "0 < k \<and> k < length seen" for k
    using stops_before [OF g] that by blast
  have early: "seen \<noteq> leaf_stream env pg (check self) \<longrightarrow> iscomplete (fst ?res)"
    using stops_early [OF g] by blast
  show ?thesis
    using scan gd pre leaf stops_result [OF g] before early by blast
qed

theorem getdefinition_stops_when_complete_witness:
  "(\<exists>ts seen. getdefinition_scan sample_env sample_tps = Inr (ts, seen)
      \<and> getdefinition sample_env sample_tps = Inr (sample_tps\<lparr>tables := ts\<rparr>)
      \<and> seen = take (length seen) (leaf_stream sample_env sample_pages (check sample_tps))
      \<and> (\<forall>x \<in> set seen. hierarchy_level (pages_getitem sample_pages (fst x)) = 0)
      \<and> ts = registry_after (tables sample_tps) seen
      \<and> (\<forall>k. 0 < k \<and> k < length seen \<longrightarrow>
            \<not> iscomplete (registry_after (tables sample_tps) (take k seen)))
      \<and> (seen \<noteq> leaf_stream sample_env sample_pages (check sample_tps) \<longrightarrow> iscomplete ts))
   \<and> map_sum id (\<lambda>st. map fst (snd st)) (getdefinition_scan sample_env sample_tps)
       = Inr [3, 2, 2, 1]
   \<and> map fst (leaf_stream sample_env sample_pages False) = [3, 2, 2, 1, 1]"
proof -
  have p: "pages sample_tps = Some sample_pages"
    by (simp add: sample_tps_def)
  have a: "map_sum id (\<lambda>st. map fst (snd st)) (getdefinition_scan sample_env sample_tps)
       = Inr [3, 2, 2, 1]"
    by code_simp
  have b: "map fst (leaf_stream sample_env sample_pages False) = [3, 2, 2, 1, 1]"
    by code_simp
  show ?thesis
    using getdefinition_stops_when_complete [OF p, of sample_env] a b by blast
qed

section \<open>Selecting the current table\<close>

lemma get_number_unknown:
  "tablename = None \<or> (\<forall>kt \<in> set ts. name (snd kt) \<noteq> tablename) \<Longrightarrow> get_number ts tablename = None"
proof (induction ts tablename rule: get_number.induct)
  case (1 ts) show ?case by simp
next
  case (2 nm) show ?case by simp
next
  case (3 k t ts nm)
  then show ?case by auto
qed

text \<open>
  Claim C10: selecting a current table never raises for an unknown name. For every
  object and every name that no table of the registry carries, and for the absent name
  \<open>None\<close>, \<open>set_current_table\<close> sets \<open>current_table_number\<close> to \<open>None\<close> and
  changes nothing else, the registry included.
\<close>

theorem set_current_table_unknown:
  assumes "tablename = None \<or> (\<forall>kt \<in> set (tables self). name (snd kt) \<noteq> tablename)"
  shows "set_current_table self tablename = self\<lparr>current_table_number := None\<rparr>
       \<and> tables (set_current_table self tablename) = tables self"
  using get_number_unknown [OF assms] by (simp add: set_current_table_def)

theorem set_current_table_unknown_witness:
  "set_current_table scanned_tps (Some ''customers'') = scanned_tps\<lparr>current_table_number := None\<rparr>
   \<and> set_current_table scanned_tps None = scanned_tps\<lparr>current_table_number := None\<rparr>
   \<and> tables (set_current_table scanned_tps (Some ''customers'')) = tables scanned_tps
   \<and> current_table_number (set_current_table scanned_tps (Some ''items'')) = Some 1"
proof -
  have a: "Some ''customers'' = None
      \<or> (\<forall>kt \<in> set (tables scanned_tps). name (snd kt) \<noteq> Some ''customers'')"
    by (simp add: scanned_tps_def)
  have b: "current_table_number (set_current_table scanned_tps (Some ''items'')) = Some 1"
    by (simp add: set_current_table_def scanned_tps_def)
  show ?thesis
    using set_current_table_unknown [OF a] set_current_table_unknown [of None scanned_tps] b
    by simp
qed

section \<open>Dates and times\<close>

lemma Byte_cons: "Byte (b # s) = Inr (uint b, s)"
  by (simp add: Byte_def read_stream_def bind_err_def)

lemma ULInt16_cons2: "ULInt16 (a # b # s) = Inr (uint a + 256 * uint b, s)"
  by (simp add: ULInt16_def read_stream_def bind_err_def)

lemma DATE_STRUCT_parse_4:
  "DATE_STRUCT_parse [d, m, y0, y1] =
     Inr \<lparr> day = uint d, month = uint m, year = uint y0 + 256 * uint y1 \<rparr>"
  by (simp add: DATE_STRUCT_parse_def Byte_cons ULInt16_cons2 bind_err_def)

text \<open>
  Claim C8, as stated: for every 4-byte input, \<open>to_date\<close> returns nothing when the
  parsed year is 0 and otherwise returns the calendar date (year, month, day). The second
  half fails: the date constructor rejects a day, month or year outside the calendar.
  For the bytes day 0, month 0, year 1 the call raises \<open>ValueError\<close>.
\<close>

theorem to_date_invalid_counterexample:
  "to_date [0, 0, 1, 0] = Inl ValueError"
  by (simp add: to_date_def DATE_STRUCT_parse_4 bind_err_def new_date_def valid_date_def)

text \<open>
  Claim C8, amended: for every 4-byte input \<open>[d, m, y0, y1]\<close>, \<open>to_date\<close> reads the
  day from the first byte, the month from the second and the year from the last two
  (little-endian); it returns nothing when the year is 0; otherwise it returns the date
  (year, month, day) when that is a date of the calendar (year at most 9999, month in
  1..12, day in 1..length of the month) and raises \<open>ValueError\<close> when it is not.
\<close>

theorem to_date_year0_or_valid:
  "to_date [d, m, y0, y1] =
     (if uint y0 + 256 * uint y1 = 0 then Inr None
      else if valid_date (uint y0 + 256 * uint y1) (uint m) (uint d)
           then Inr (Some (Date (uint y0 + 256 * uint y1) (uint m) (uint d)))
           else Inl ValueError)"
  by (simp add: to_date_def DATE_STRUCT_parse_4 bind_err_def new_date_def)

theorem to_date_year0_or_valid_witness:
  "to_date [29, 2, 0xE8, 0x07] = Inr (Some (Date 2024 2 29))
   \<and> to_date [0, 0, 0, 0] = Inr None
   \<and> to_date [30, 2, 0xE8, 0x07] = Inl ValueError"
  using to_date_year0_or_valid [of 29 2 "0xE8" "0x07"] to_date_year0_or_valid [of 0 0 0 0]
    to_date_year0_or_valid [of 30 2 "0xE8" "0x07"]
  by (simp add: valid_date_def days_in_month_def is_leap_def)

text \<open>
  Claim C9 says that \<open>to_time\<close> returns a time of day with \<open>centisecond * 10000\<close>
  microseconds whenever the four bytes form a valid time. The code computes exactly these
  arguments and then calls the module \<^verbatim>\<open>time\<close>, which is not callable: for the bytes
  \<open>[0, 0, 0, 0]\<close> (midnight) the call raises \<open>TypeError\<close> instead of returning
  \<open>Time 0 0 0 0\<close>.
\<close>

theorem to_time_midnight_raises_TypeError:
  "to_time [0, 0, 0, 0] = Inl TypeError"
  by (simp add: to_time_def TIME_STRUCT_parse_def Byte_cons bind_err_def
      time_module_call_def)

lemma to_time_never_returns: "to_time v \<noteq> Inr t"
  by (simp add: to_time_def time_module_call_def bind_err_def split: sum.splits)

end
